theory Spec2Isabelle
  imports Complex_Main "HOL-Library.Char_ord" "HOL-Library.List_Lexorder"
    "HOL-Library.Product_Lexorder"
begin

section \<open>Python values\<close>

text \<open>
  The values that travel through the chat service as identities, meeting ids and JSON
  scalars: \<open>None\<close>, an integer, or a string.
\<close>

datatype jval = JNull | JInt int | JStr string

text \<open>Python truthiness (\<open>if v:\<close>, \<open>if not v:\<close>).\<close>

fun truthy :: "jval \<Rightarrow> bool" where
  "truthy JNull = False"
| "truthy (JInt n) = (n \<noteq> 0)"
| "truthy (JStr s) = (s \<noteq> [])"

text \<open>\<open>str(v)\<close>: decimal digits for an integer, \<open>'None'\<close> for \<open>None\<close>.\<close>

fun str_nat :: "nat \<Rightarrow> string" where
  "str_nat n = (if n < 10 then [''0123456789'' ! n]
                else str_nat (n div 10) @ [''0123456789'' ! (n mod 10)])"

declare str_nat.simps [simp del]

definition str_int :: "int \<Rightarrow> string" where
  "str_int i = (if i < 0 then CHR ''-'' # str_nat (nat (- i)) else str_nat (nat i))"

fun py_str :: "jval \<Rightarrow> string" where
  "py_str JNull = ''None''"
| "py_str (JInt n) = str_int n"
| "py_str (JStr s) = s"

text \<open>\<open>d.get(k, default)\<close> on the assoc-list model of a dict.\<close>

definition dict_get :: "(string \<times> jval) list \<Rightarrow> string \<Rightarrow> jval \<Rightarrow> jval" where
  "dict_get d k dflt = (case map_of d k of None \<Rightarrow> dflt | Some v \<Rightarrow> v)"

datatype py_error = ValueError | KeyError | TypeError | RedisError | DBError

section \<open>Connection registry\<close>

text \<open>
  The two process-wide dictionaries of \<open>chat_service/app.py\<close>:
  \<open>user_sid_map: Dict[str, List[str]]\<close> and \<open>sid_user_map: Dict[str, str]\<close>.
\<close>

type_synonym sid = string

record registry =
  user_sid_map :: "string \<rightharpoonup> sid list"
  sid_user_map :: "sid \<rightharpoonup> string"

definition empty_registry :: registry where
  "empty_registry = \<lparr>user_sid_map = Map.empty, sid_user_map = Map.empty\<rparr>"

text \<open>
  \<open>verify_jwt\<close> (lines 198-215): try \<open>decode_token\<close> of flask_jwt_extended and return
  \<open>{'user_id': decoded.get('sub')}\<close>; when that raises, fall back to \<open>jwt.decode\<close> and
  return its payload; when that raises too, return \<open>None\<close>. The two decoders are library
  functions and are parameters here (\<open>None\<close> stands for a raise).
\<close>

type_synonym claims = "(string \<times> jval) list"

definition verify_jwt ::
  "(string \<Rightarrow> claims option) \<Rightarrow> (string \<Rightarrow> claims option) \<Rightarrow> string \<Rightarrow> claims option" where
  "verify_jwt decode_token jwt_decode token =
     (case decode_token token of
        Some decoded_token \<Rightarrow> Some [(''user_id'', dict_get decoded_token ''sub'' JNull)]
      | None \<Rightarrow> jwt_decode token)"

text \<open>
  Lines 425-430 of \<open>handle_connect\<close>: the registration itself. The connection is
  appended to the identity's list; the reverse entry is overwritten.
\<close>

definition register :: "registry \<Rightarrow> string \<Rightarrow> sid \<Rightarrow> registry" where
  "register reg user_id s =
     \<lparr>user_sid_map = (user_sid_map reg)
        (user_id \<mapsto> (case user_sid_map reg user_id of None \<Rightarrow> [] | Some sids \<Rightarrow> sids) @ [s]),
      sid_user_map = (sid_user_map reg)(s \<mapsto> user_id)\<rparr>"

text \<open>
  \<open>handle_connect\<close> (lines 392-430). \<open>auth_data\<close> is the token that lines 396-405 found
  in the query string, the Authorization header or the auth payload (\<open>None\<close> when there
  is none); \<open>verify\<close> is \<open>verify_jwt\<close> with its decoders. A missing, empty or invalid
  token leaves the registry as it is.
\<close>

definition handle_connect ::
  "(string \<Rightarrow> claims option) \<Rightarrow> registry \<Rightarrow> sid \<Rightarrow> string option \<Rightarrow> registry" where
  "handle_connect verify reg s auth_data =
     (case auth_data of
        None \<Rightarrow> reg
      | Some token \<Rightarrow>
          if token = [] then reg
          else (case verify token of
                  None \<Rightarrow> reg
                | Some decoded \<Rightarrow>
                    if decoded = [] then reg
                    else let user_id = py_str (dict_get decoded ''sub''
                                                (dict_get decoded ''user_id'' (JStr [])))
                         in if user_id \<noteq> [] then register reg user_id s else reg))"

text \<open>
  \<open>handle_disconnect\<close> (lines 441-451). \<open>list.remove\<close> deletes the first occurrence and
  raises \<open>ValueError\<close> when there is none; the handler then ends by that exception,
  before any dictionary was changed.
\<close>

definition handle_disconnect :: "registry \<Rightarrow> sid \<Rightarrow> py_error + registry" where
  "handle_disconnect reg s =
     (case sid_user_map reg s of
        None \<Rightarrow> Inr reg
      | Some user_id \<Rightarrow>
          (case user_sid_map reg user_id of
             None \<Rightarrow> Inr (reg\<lparr>sid_user_map := (sid_user_map reg)(s := None)\<rparr>)
           | Some sids \<Rightarrow>
               if s \<notin> set sids then Inl ValueError
               else let sids' = remove1 s sids
                    in Inr \<lparr>user_sid_map =
                              (if sids' = [] then (user_sid_map reg)(user_id := None)
                               else (user_sid_map reg)(user_id \<mapsto> sids')),
                            sid_user_map = (sid_user_map reg)(s := None)\<rparr>))"

text \<open>Sequences of connects and disconnects; a handler that raises leaves the state.\<close>

datatype reg_op = Connect sid "string option" | Disconnect sid

fun reg_step :: "(string \<Rightarrow> claims option) \<Rightarrow> registry \<Rightarrow> reg_op \<Rightarrow> registry" where
  "reg_step verify reg (Connect s auth_data) = handle_connect verify reg s auth_data"
| "reg_step verify reg (Disconnect s) =
     (case handle_disconnect reg s of Inl e \<Rightarrow> reg | Inr reg' \<Rightarrow> reg')"

fun reg_run :: "(string \<Rightarrow> claims option) \<Rightarrow> registry \<Rightarrow> reg_op list \<Rightarrow> registry" where
  "reg_run verify reg [] = reg"
| "reg_run verify reg (x # xs) = reg_run verify (reg_step verify reg x) xs"

text \<open>
  The transport gives every connection a fresh sid and fires \<open>connect\<close> once for it:
  a sequence is \<open>fresh\<close> when no connect arrives for a sid that is registered.
\<close>

fun fresh_connects :: "(string \<Rightarrow> claims option) \<Rightarrow> registry \<Rightarrow> reg_op list \<Rightarrow> bool" where
  "fresh_connects verify reg [] = True"
| "fresh_connects verify reg (Connect s a # xs) =
     (sid_user_map reg s = None \<and> fresh_connects verify (reg_step verify reg (Connect s a)) xs)"
| "fresh_connects verify reg (Disconnect s # xs) =
     fresh_connects verify (reg_step verify reg (Disconnect s)) xs"

definition symmetric :: "registry \<Rightarrow> bool" where
  "symmetric reg \<longleftrightarrow>
     (\<forall>s u. sid_user_map reg s = Some u \<longleftrightarrow>
            (\<exists>sids. user_sid_map reg u = Some sids \<and> s \<in> set sids))"

definition distinct_sids :: "registry \<Rightarrow> bool" where
  "distinct_sids reg \<longleftrightarrow> (\<forall>u sids. user_sid_map reg u = Some sids \<longrightarrow> distinct sids)"

section \<open>Chat messages and the Redis history cache\<close>

text \<open>
  The dictionary a chat message travels as: what \<open>ChatMessage.to_dict\<close> returns, with the
  key \<open>authenticated\<close> that \<open>handle_chat_message\<close> adds. \<open>d_user_id\<close> is \<open>None\<close> when the
  key is absent (read with \<open>msg.get('user_id', 'system')\<close>); \<open>d_authenticated\<close> is \<open>None\<close>
  for the dictionaries built from database rows, which have no such key.
\<close>

record message_data =
  d_id :: int
  d_meeting_id :: int
  d_user_id :: "jval option"
  d_user_name :: "string option"
  d_content :: string
  d_timestamp :: string
  d_authenticated :: "bool option"

text \<open>
  The library functions the cache code calls, as parameters:
  \<^item> \<open>json_dumps\<close>: \<open>json.dumps\<close> on a message dictionary (the sorted-set member);
  \<^item> \<open>fromisoformat_timestamp\<close>: \<open>datetime.fromisoformat(s).timestamp()\<close>, the score
    (the double as a rational); \<open>None\<close> when \<open>fromisoformat\<close> raises \<open>ValueError\<close>;
  \<^item> \<open>isoformat\<close>: \<open>datetime.isoformat()\<close> of a database timestamp.
  A database timestamp (a naive UTC \<open>datetime\<close>) is its number of microseconds since the
  epoch.
\<close>

type_synonym datetime = int

record pylib =
  json_dumps :: "message_data \<Rightarrow> string"
  fromisoformat_timestamp :: "string \<Rightarrow> rat option"
  isoformat :: "datetime \<Rightarrow> string"

text \<open>\<open>s.replace('Z', '+00:00')\<close>.\<close>

definition replace_Z :: "string \<Rightarrow> string" where
  "replace_Z s = concat (map (\<lambda>c. if c = CHR ''Z'' then ''+00:00'' else [c]) s)"

text \<open>
  A Redis sorted set: the (score, member) pairs in rank order, that is ascending by
  score and, among equal scores, by the bytes of the member. A member is the JSON text of
  a message; it is kept here as the dictionary it encodes (what \<open>json.loads\<close> gives back),
  and \<open>json_dumps\<close> decides identity and the order among equal scores. A key that does not
  exist is the empty list. \<open>redis_up\<close> is false when the server cannot be reached: every
  command then raises. \<open>expires\<close> records the time to live last set on a key, in seconds.
\<close>

type_synonym zset = "(rat \<times> message_data) list"

record redis =
  zsets :: "string \<Rightarrow> zset"
  expires :: "string \<rightharpoonup> nat"
  redis_up :: bool

definition zadd :: "(message_data \<Rightarrow> string) \<Rightarrow> zset \<Rightarrow> message_data \<Rightarrow> rat \<Rightarrow> zset" where
  "zadd dumps zs member score =
     insort_key (\<lambda>(s, m). (s, dumps m)) (score, member)
       (filter (\<lambda>(s, m). dumps m \<noteq> dumps member) zs)"

text \<open>
  Rank ranges as Redis reads them (\<open>ZRANGE\<close>, \<open>ZREMRANGEBYRANK\<close>): a negative index counts
  from the end, the start is clamped to 0 and the stop to the last rank, and the range is
  empty when the start lies behind the stop or behind the last rank.
\<close>

definition rank_range :: "nat \<Rightarrow> int \<Rightarrow> int \<Rightarrow> (nat \<times> nat) option" where
  "rank_range len start stop =
     (let n = int len;
          a = (if start < 0 then max 0 (n + start) else start);
          b = (if stop < 0 then n + stop else min stop (n - 1))
      in if b < a \<or> n \<le> a then None else Some (nat a, nat b))"

definition zrange :: "'a list \<Rightarrow> int \<Rightarrow> int \<Rightarrow> 'a list" where
  "zrange zs start stop =
     (case rank_range (length zs) start stop of
        None \<Rightarrow> []
      | Some (a, b) \<Rightarrow> take (Suc b - a) (drop a zs))"

definition zremrangebyrank :: "'a list \<Rightarrow> int \<Rightarrow> int \<Rightarrow> 'a list" where
  "zremrangebyrank zs start stop =
     (case rank_range (length zs) start stop of
        None \<Rightarrow> zs
      | Some (a, b) \<Rightarrow> take a zs @ drop (Suc b) zs)"

text \<open>The Python slice \<open>xs[-k:]\<close> for an integer \<open>k\<close> (\<open>xs[-0:]\<close> is the whole list).\<close>

definition slice_last :: "int \<Rightarrow> 'a list \<Rightarrow> 'a list" where
  "slice_last k xs = (if 0 < k then drop (length xs - nat k) xs else drop (nat (- k)) xs)"

definition history_key :: "string \<Rightarrow> string" where
  "history_key room = ''chat:history:'' @ room"

definition user_key :: "string \<Rightarrow> jval \<Rightarrow> string" where
  "user_key room user_id = ''chat:user:'' @ room @ '':'' @ py_str user_id"

text \<open>
  \<open>store_message_in_redis\<close> (lines 227-261). Every exception is caught and logged: when the
  timestamp does not parse, or Redis is down, nothing is stored.
\<close>

definition store_message_in_redis :: "pylib \<Rightarrow> redis \<Rightarrow> string \<Rightarrow> message_data \<Rightarrow> redis" where
  "store_message_in_redis L r room message_data =
     (case fromisoformat_timestamp L (replace_Z (d_timestamp message_data)) of
        None \<Rightarrow> r
      | Some timestamp \<Rightarrow>
          if \<not> redis_up r then r
          else
            let hk = history_key room;
                user_id = (case d_user_id message_data of None \<Rightarrow> JNull | Some v \<Rightarrow> v);
                uk = user_key room user_id;
                r1 = r\<lparr>zsets := (zsets r)(hk := zadd (json_dumps L) (zsets r hk) message_data timestamp)\<rparr>;
                r2 = (if truthy user_id
                      then r1\<lparr>zsets := (zsets r1)(uk := zadd (json_dumps L) (zsets r1 uk) message_data timestamp),
                              expires := (expires r1)(uk \<mapsto> 60 * 60 * 24 * 7)\<rparr>
                      else r1);
                r3 = r2\<lparr>expires := (expires r2)(hk \<mapsto> 60 * 60 * 24 * 30)\<rparr>;
                r4 = r3\<lparr>zsets := (zsets r3)(hk := zremrangebyrank (zsets r3 hk) 0 (- 501))\<rparr>
            in if truthy user_id
               then r4\<lparr>zsets := (zsets r4)(uk := zremrangebyrank (zsets r4 uk) 0 (- 101))\<rparr>
               else r4)"

text \<open>\<open>get_chat_history\<close> (lines 274-293); a Redis failure is caught and gives \<open>[]\<close>.\<close>

definition get_chat_history :: "redis \<Rightarrow> string \<Rightarrow> int \<Rightarrow> message_data list" where
  "get_chat_history r room limit =
     (if \<not> redis_up r then []
      else map snd (zrange (zsets r (history_key room)) (- limit) (- 1)))"

text \<open>
  \<open>get_chat_history_with_user_limit\<close> (lines 295-341). Step 3 groups the messages in a
  dict keyed by \<open>msg.get('user_id', 'system')\<close>; a dict keeps its keys in the order of
  their first insertion, so the groups are an association list in that order.
\<close>

definition sender :: "message_data \<Rightarrow> jval" where
  "sender msg = (case d_user_id msg of None \<Rightarrow> JStr ''system'' | Some v \<Rightarrow> v)"

fun add_to_group ::
  "jval \<Rightarrow> message_data \<Rightarrow> (jval \<times> message_data list) list \<Rightarrow> (jval \<times> message_data list) list" where
  "add_to_group u m [] = [(u, [m])]"
| "add_to_group u m ((k, ms) # g) =
     (if k = u then (k, ms @ [m]) # g else (k, ms) # add_to_group u m g)"

definition group_by_user :: "message_data list \<Rightarrow> (jval \<times> message_data list) list" where
  "group_by_user all_messages = foldl (\<lambda>g m. add_to_group (sender m) m g) [] all_messages"

definition get_chat_history_with_user_limit ::
  "redis \<Rightarrow> string \<Rightarrow> int \<Rightarrow> int \<Rightarrow> message_data list" where
  "get_chat_history_with_user_limit r room global_limit per_user_limit =
     (if \<not> redis_up r then []
      else
        let all_messages = map snd (zrange (zsets r (history_key room)) (- 1000) (- 1));
            user_messages = group_by_user all_messages;
            limited_messages =
              concat (map (\<lambda>(user_id, messages).
                             slice_last per_user_limit (sort_key d_timestamp messages))
                          user_messages);
            sorted_limited = sort_key d_timestamp limited_messages
        in if int (length sorted_limited) > global_limit
           then slice_last global_limit sorted_limited
           else sorted_limited)"

section \<open>Durable storage\<close>

text \<open>
  The \<open>ChatMessage\<close> model (lines 169-191). \<open>id\<close> and \<open>timestamp\<close> are assigned by the
  INSERT (primary key, \<open>default=utcnow\<close>); \<open>user_id\<close> and \<open>guest_user_id\<close> are nullable.
\<close>

record ChatMessage =
  cm_id :: int
  cm_meeting_id :: int
  cm_user_id :: "int option"
  cm_guest_user_id :: "string option"
  cm_user_name :: "string option"
  cm_content :: string
  cm_timestamp :: datetime

text \<open>
  \<open>to_dict\<close> (lines 183-191): \<open>user_id\<close> is \<open>guest_user_id\<close> when that is truthy (set and
  not empty), else the numeric \<open>user_id\<close>.
\<close>

definition to_dict :: "pylib \<Rightarrow> ChatMessage \<Rightarrow> message_data" where
  "to_dict L self =
     \<lparr>d_id = cm_id self,
      d_meeting_id = cm_meeting_id self,
      d_user_id = Some (if cm_guest_user_id self \<noteq> None \<and> cm_guest_user_id self \<noteq> Some []
                        then JStr (the (cm_guest_user_id self))
                        else (case cm_user_id self of None \<Rightarrow> JNull | Some u \<Rightarrow> JInt u)),
      d_user_name = cm_user_name self,
      d_content = cm_content self,
      d_timestamp = isoformat L (cm_timestamp self) @ ''Z'',
      d_authenticated = None\<rparr>"

text \<open>
  The database as the chat service sees it: the committed rows of \<open>chat_messages\<close> in
  insertion order, the next primary key, the objects added to the session and not yet
  committed, and whether the server fails the next statement (connection loss or a
  violated constraint: decided outside this code).
\<close>

record db =
  rows :: "ChatMessage list"
  next_id :: int
  pending :: "ChatMessage list"
  db_fails :: bool

definition db_session_add :: "db \<Rightarrow> ChatMessage \<Rightarrow> db" where
  "db_session_add d obj = d\<lparr>pending := pending d @ [obj]\<rparr>"

fun assign_ids :: "datetime \<Rightarrow> int \<Rightarrow> ChatMessage list \<Rightarrow> ChatMessage list" where
  "assign_ids now n [] = []"
| "assign_ids now n (obj # objs) =
     obj\<lparr>cm_id := n, cm_timestamp := now\<rparr> # assign_ids now (n + 1) objs"

definition db_session_commit :: "datetime \<Rightarrow> db \<Rightarrow> py_error + db" where
  "db_session_commit now d =
     (if db_fails d then Inl DBError
      else Inr (d\<lparr>rows := rows d @ assign_ids now (next_id d) (pending d),
                  next_id := next_id d + int (length (pending d)),
                  pending := []\<rparr>))"

definition db_session_rollback :: "db \<Rightarrow> db" where
  "db_session_rollback d = d\<lparr>pending := []\<rparr>"

text \<open>
  \<open>ChatMessage.query.filter_by(meeting_id=m).order_by(ChatMessage.timestamp.asc())
  .limit(n).all()\<close>: the first \<open>n\<close> rows of the meeting in ascending timestamp order.
  PostgreSQL rejects a negative LIMIT.
\<close>

definition query_history :: "db \<Rightarrow> int \<Rightarrow> int \<Rightarrow> py_error + ChatMessage list" where
  "query_history d meeting_id_int limit =
     (if db_fails d \<or> limit < 0 then Inl DBError
      else Inr (take (nat limit)
                  (sort_key cm_timestamp
                     (filter (\<lambda>row. cm_meeting_id row = meeting_id_int) (rows d)))))"

section \<open>\<open>int()\<close> on a string\<close>

text \<open>
  \<open>int(s)\<close> for an ASCII string: surrounding whitespace is stripped, an optional sign
  follows, then decimal digits, where single underscores may stand between digits.
  \<open>None\<close> is the \<open>ValueError\<close>.
\<close>

definition is_space :: "char \<Rightarrow> bool" where
  "is_space c \<longleftrightarrow> (let n = (of_char c :: nat) in (9 \<le> n \<and> n \<le> 13) \<or> (28 \<le> n \<and> n \<le> 32))"

definition strip :: "string \<Rightarrow> string" where
  "strip s = dropWhile is_space (rev (dropWhile is_space (rev s)))"

definition digit_of :: "char \<Rightarrow> nat option" where
  "digit_of c = (let n = (of_char c :: nat) in if 48 \<le> n \<and> n \<le> 57 then Some (n - 48) else None)"

fun parse_digits :: "nat \<Rightarrow> string \<Rightarrow> nat option" where
  "parse_digits acc [] = Some acc"
| "parse_digits acc [c] = (case digit_of c of None \<Rightarrow> None | Some v \<Rightarrow> Some (acc * 10 + v))"
| "parse_digits acc (c # d # ds) =
     (if c = CHR ''_''
      then (case digit_of d of None \<Rightarrow> None | Some v \<Rightarrow> parse_digits (acc * 10 + v) ds)
      else (case digit_of c of None \<Rightarrow> None | Some v \<Rightarrow> parse_digits (acc * 10 + v) (d # ds)))"

definition parse_unsigned :: "string \<Rightarrow> nat option" where
  "parse_unsigned s =
     (case s of
        [] \<Rightarrow> None
      | c # cs \<Rightarrow> (case digit_of c of None \<Rightarrow> None | Some v \<Rightarrow> parse_digits v cs))"

definition py_int :: "string \<Rightarrow> int option" where
  "py_int s =
     (case strip s of
        [] \<Rightarrow> None
      | c # cs \<Rightarrow>
          if c = CHR ''-'' then map_option (\<lambda>n. - int n) (parse_unsigned cs)
          else if c = CHR ''+'' then map_option int (parse_unsigned cs)
          else map_option int (parse_unsigned (c # cs)))"

definition startswith :: "string \<Rightarrow> string \<Rightarrow> bool" where
  "startswith s p = (take (length p) s = p)"

section \<open>History endpoint\<close>

text \<open>
  \<open>get_meeting_chat_history\<close> (lines 344-388), for a request that passed \<open>jwt_required\<close>.
  \<open>limit\<close> and \<open>per_user_limit\<close> are the parsed query parameters (defaults 50 and 5). The
  result is the response and the cache as the fallback left it.
\<close>

datatype response = Ok200 "message_data list" | Error400 | Error500

definition get_meeting_chat_history ::
  "pylib \<Rightarrow> redis \<Rightarrow> db \<Rightarrow> string \<Rightarrow> int \<Rightarrow> int \<Rightarrow> response \<times> redis" where
  "get_meeting_chat_history L r d meeting_id limit per_user_limit =
     (case py_int meeting_id of
        None \<Rightarrow> (Error400, r)
      | Some meeting_id_int \<Rightarrow>
          let messages = (if per_user_limit > 0
                          then get_chat_history_with_user_limit r meeting_id limit per_user_limit
                          else get_chat_history r meeting_id limit)
          in if messages = []
             then (case query_history d meeting_id_int limit of
                     Inl e \<Rightarrow> (Error500, r)
                   | Inr db_messages \<Rightarrow>
                       let messages = map (to_dict L) db_messages
                       in (Ok200 messages,
                           foldl (\<lambda>r message. store_message_in_redis L r meeting_id message)
                                 r messages))
             else (Ok200 messages, r))"

section \<open>Example data\<close>

text \<open>
  \<open>json.dumps\<close> of a message dictionary whose strings need no escape (printable ASCII
  without quote and backslash), and the two datetime conversions on the three instants
  the examples use: 2024-01-01 00:00:01, :02 and :03 UTC.
\<close>

definition json_str :: "string \<Rightarrow> string" where
  "json_str s = CHR 0x22 # s @ [CHR 0x22]"

fun json_val :: "jval \<Rightarrow> string" where
  "json_val JNull = ''null''"
| "json_val (JInt n) = str_int n"
| "json_val (JStr s) = json_str s"

definition json_dumps_ascii :: "message_data \<Rightarrow> string" where
  "json_dumps_ascii m =
     ''{'' @ json_str ''id'' @ '': '' @ str_int (d_id m) @ '', ''
       @ json_str ''meeting_id'' @ '': '' @ str_int (d_meeting_id m) @ '', ''
       @ (case d_user_id m of None \<Rightarrow> []
          | Some v \<Rightarrow> json_str ''user_id'' @ '': '' @ json_val v @ '', '')
       @ json_str ''user_name'' @ '': ''
       @ (case d_user_name m of None \<Rightarrow> ''null'' | Some n \<Rightarrow> json_str n) @ '', ''
       @ json_str ''content'' @ '': '' @ json_str (d_content m) @ '', ''
       @ json_str ''timestamp'' @ '': '' @ json_str (d_timestamp m)
       @ (case d_authenticated m of None \<Rightarrow> []
          | Some b \<Rightarrow> '', '' @ json_str ''authenticated'' @ '': ''
                      @ (if b then ''true'' else ''false''))
       @ ''}''"

definition example_timestamp :: "string \<Rightarrow> rat option" where
  "example_timestamp s =
     (if s = ''2024-01-01T00:00:01+00:00'' then Some 1704067201
      else if s = ''2024-01-01T00:00:02+00:00'' then Some 1704067202
      else if s = ''2024-01-01T00:00:03+00:00'' then Some 1704067203
      else None)"

definition example_isoformat :: "datetime \<Rightarrow> string" where
  "example_isoformat t =
     (if t = 1704067201000000 then ''2024-01-01T00:00:01''
      else if t = 1704067202000000 then ''2024-01-01T00:00:02''
      else if t = 1704067203000000 then ''2024-01-01T00:00:03''
      else ''1970-01-01T00:00:00'')"

definition example_lib :: pylib where
  "example_lib = \<lparr>json_dumps = json_dumps_ascii,
                  fromisoformat_timestamp = example_timestamp,
                  isoformat = example_isoformat\<rparr>"

text \<open>Three messages of user 7 in meeting 42, one second apart.\<close>

definition example_row :: "int \<Rightarrow> string \<Rightarrow> datetime \<Rightarrow> ChatMessage" where
  "example_row i text t =
     \<lparr>cm_id = i, cm_meeting_id = 42, cm_user_id = Some 7, cm_guest_user_id = None,
      cm_user_name = Some ''Ann'', cm_content = text, cm_timestamp = t\<rparr>"

definition row1 :: ChatMessage where "row1 = example_row 1 ''one'' 1704067201000000"
definition row2 :: ChatMessage where "row2 = example_row 2 ''two'' 1704067202000000"
definition row3 :: ChatMessage where "row3 = example_row 3 ''three'' 1704067203000000"

definition msg1 :: message_data where "msg1 = to_dict example_lib row1"
definition msg2 :: message_data where "msg2 = to_dict example_lib row2"
definition msg3 :: message_data where "msg3 = to_dict example_lib row3"

definition empty_redis :: redis where
  "empty_redis = \<lparr>zsets = (\<lambda>k. []), expires = Map.empty, redis_up = True\<rparr>"

definition example_db :: db where
  "example_db = \<lparr>rows = [row1, row2, row3], next_id = 4, pending = [], db_fails = False\<rparr>"

text \<open>The cache after the three messages were stored for room 42: all of one sender.\<close>

definition example_cache :: redis where
  "example_cache =
     foldl (\<lambda>r m. store_message_in_redis example_lib r ''42'' m) empty_redis [msg1, msg2, msg3]"

text \<open>A concrete decoder for the examples: one valid token, of user 7.\<close>

definition example_decode_token :: "string \<Rightarrow> claims option" where
  "example_decode_token t = (if t = ''tokA'' then Some [(''sub'', JInt 7)] else None)"

definition example_jwt_decode :: "string \<Rightarrow> claims option" where
  "example_jwt_decode t = None"

definition example_verify :: "string \<Rightarrow> claims option" where
  "example_verify = verify_jwt example_decode_token example_jwt_decode"

section \<open>Registry: properties\<close>

lemma symmetric_empty: "symmetric empty_registry"
  by (simp add: symmetric_def empty_registry_def)

lemma distinct_sids_empty: "distinct_sids empty_registry"
  by (simp add: distinct_sids_def empty_registry_def)

lemma symmetric_fresh_sid:
  assumes "symmetric reg" and "sid_user_map reg s = None"
  shows "user_sid_map reg u = Some sids \<Longrightarrow> s \<notin> set sids"
  using assms unfolding symmetric_def by (metis option.distinct(1))

lemma register_symmetric:
  assumes sym: "symmetric reg" and fr: "sid_user_map reg s = None"
  shows "symmetric (register reg u s)"
  unfolding symmetric_def
proof (intro allI)
  fix s' u'
  have nin: "\<And>v l. user_sid_map reg v = Some l \<Longrightarrow> s \<notin> set l"
    using symmetric_fresh_sid [OF sym fr] by blast
  show "sid_user_map (register reg u s) s' = Some u' \<longleftrightarrow>
        (\<exists>sids. user_sid_map (register reg u s) u' = Some sids \<and> s' \<in> set sids)"
  proof (cases "s' = s")
    case True
    show ?thesis
    proof (cases "u' = u")
      case True
      with \<open>s' = s\<close> show ?thesis by (simp add: register_def)
    next
      case False
      with \<open>s' = s\<close> nin show ?thesis by (auto simp: register_def)
    qed
  next
    case False
    have old: "sid_user_map reg s' = Some u' \<longleftrightarrow>
               (\<exists>sids. user_sid_map reg u' = Some sids \<and> s' \<in> set sids)"
      using sym unfolding symmetric_def by blast
    show ?thesis
    proof (cases "u' = u")
      case True
      with False old show ?thesis
        by (cases "user_sid_map reg u") (auto simp: register_def)
    next
      case False
      with \<open>s' \<noteq> s\<close> old show ?thesis by (simp add: register_def)
    qed
  qed
qed

lemma register_distinct:
  assumes "symmetric reg" and "distinct_sids reg" and "sid_user_map reg s = None"
  shows "distinct_sids (register reg u s)"
  using assms symmetric_fresh_sid [OF assms(1) assms(3)]
  unfolding distinct_sids_def register_def
  by (auto split: option.splits)

lemma handle_connect_cases:
  "handle_connect verify reg s a = reg \<or> (\<exists>u. handle_connect verify reg s a = register reg u s)"
  by (auto simp: handle_connect_def Let_def split: option.splits)

lemma handle_disconnect_inv:
  assumes sym: "symmetric reg" and dis: "distinct_sids reg"
    and res: "handle_disconnect reg s = Inr reg'"
  shows "symmetric reg' \<and> distinct_sids reg'"
proof (cases "sid_user_map reg s")
  case None
  with res have "reg' = reg" by (simp add: handle_disconnect_def)
  with sym dis show ?thesis by simp
next
  case (Some u)
  then obtain sids where us: "user_sid_map reg u = Some sids" and mem: "s \<in> set sids"
    using sym unfolding symmetric_def by blast
  have d: "distinct sids" using dis us unfolding distinct_sids_def by blast
  have reg': "reg' = \<lparr>user_sid_map =
                        (if remove1 s sids = [] then (user_sid_map reg)(u := None)
                         else (user_sid_map reg)(u \<mapsto> remove1 s sids)),
                      sid_user_map = (sid_user_map reg)(s := None)\<rparr>"
    using res Some us mem by (simp add: handle_disconnect_def Let_def)
  have set_rm: "set (remove1 s sids) = set sids - {s}"
    using d by simp
  have new_u: "(\<exists>l. user_sid_map reg' u = Some l \<and> x \<in> set l) \<longleftrightarrow> x \<in> set sids - {s}" for x
  proof (cases "remove1 s sids = []")
    case True
    then have "set sids - {s} = {}" using set_rm by simp
    with True show ?thesis by (auto simp: reg')
  next
    case False
    then show ?thesis using set_rm by (simp add: reg')
  qed
  have new_other: "u' \<noteq> u \<Longrightarrow> user_sid_map reg' u' = user_sid_map reg u'" for u'
    by (simp add: reg')
  have old: "\<And>s' u'. sid_user_map reg s' = Some u' \<longleftrightarrow>
               (\<exists>l. user_sid_map reg u' = Some l \<and> s' \<in> set l)"
    using sym unfolding symmetric_def by blast
  have "symmetric reg'"
    unfolding symmetric_def
  proof (intro allI)
    fix s' u'
    show "sid_user_map reg' s' = Some u' \<longleftrightarrow>
          (\<exists>l. user_sid_map reg' u' = Some l \<and> s' \<in> set l)"
    proof (cases "u' = u")
      case True
      have o: "sid_user_map reg s' = Some u \<longleftrightarrow> s' \<in> set sids"
        using old [of s' u] us by simp
      have n: "sid_user_map reg' s' = Some u \<longleftrightarrow> s' \<noteq> s \<and> sid_user_map reg s' = Some u"
        by (simp add: reg')
      show ?thesis unfolding True new_u n o by blast
    next
      case False
      have n: "sid_user_map reg' s' = Some u' \<longleftrightarrow> s' \<noteq> s \<and> sid_user_map reg s' = Some u'"
        by (simp add: reg')
      have "sid_user_map reg s = Some u' \<longleftrightarrow> False" using Some False by simp
      then have "s' = s \<Longrightarrow> \<not> (\<exists>l. user_sid_map reg u' = Some l \<and> s' \<in> set l)"
        using old [of s u'] by simp
      then show ?thesis unfolding n new_other [OF False] using old [of s' u'] by blast
    qed
  qed
  moreover have "distinct_sids reg'"
    unfolding distinct_sids_def
  proof (intro allI impI)
    fix v l assume a: "user_sid_map reg' v = Some l"
    show "distinct l"
    proof (cases "v = u")
      case True
      with a have "l = remove1 s sids" by (simp add: reg' split: if_splits)
      with d show ?thesis by simp
    next
      case False
      with a new_other have "user_sid_map reg v = Some l" by simp
      with dis show ?thesis unfolding distinct_sids_def by blast
    qed
  qed
  ultimately show ?thesis by simp
qed

lemma reg_step_inv:
  assumes "symmetric reg \<and> distinct_sids reg"
    and "fresh_connects verify reg [x]"
  shows "symmetric (reg_step verify reg x) \<and> distinct_sids (reg_step verify reg x)"
proof (cases x)
  case (Connect s a)
  with assms(2) have fr: "sid_user_map reg s = None" by simp
  from handle_connect_cases [of verify reg s a] show ?thesis
  proof
    assume "handle_connect verify reg s a = reg"
    with Connect assms(1) show ?thesis by simp
  next
    assume "\<exists>u. handle_connect verify reg s a = register reg u s"
    then obtain u where "handle_connect verify reg s a = register reg u s" ..
    with Connect assms(1) fr show ?thesis
      by (simp add: register_symmetric register_distinct)
  qed
next
  case (Disconnect s)
  show ?thesis
  proof (cases "handle_disconnect reg s")
    case (Inl e)
    with Disconnect assms(1) show ?thesis by simp
  next
    case (Inr reg')
    with handle_disconnect_inv [of reg s reg'] assms(1) Disconnect show ?thesis by simp
  qed
qed

lemma reg_run_inv:
  "symmetric reg \<and> distinct_sids reg \<Longrightarrow> fresh_connects verify reg xs \<Longrightarrow>
   symmetric (reg_run verify reg xs) \<and> distinct_sids (reg_run verify reg xs)"
proof (induction xs arbitrary: reg)
  case Nil
  then show ?case by simp
next
  case (Cons x xs)
  have f1: "fresh_connects verify reg [x]"
    using Cons.prems(2) by (cases x) simp_all
  have f2: "fresh_connects verify (reg_step verify reg x) xs"
    using Cons.prems(2) by (cases x) simp_all
  from reg_step_inv [OF Cons.prems(1) f1] Cons.IH [OF _ f2]
  show ?case by simp
qed

lemma str_int_7: "str_int 7 = ''7''"
  by (simp add: str_int_def str_nat.simps)

lemma example_verify_tokA: "example_verify ''tokA'' = Some [(''user_id'', JInt 7)]"
  by (simp add: example_verify_def verify_jwt_def example_decode_token_def dict_get_def)

lemma example_connect:
  "handle_connect example_verify reg s (Some ''tokA'') = register reg ''7'' s"
  by (simp add: handle_connect_def example_verify_tokA dict_get_def str_int_7)

lemma handle_connect_None: "handle_connect verify reg s None = reg"
  by (simp add: handle_connect_def)

text \<open>
  C4 (as the code has it). Registering the pair (identity, connection) a second time is
  not a no-op: the connection is appended to the identity's list once more, so the list
  ends with two copies of it. The reverse map is the same as after one registration,
  the lists of the other identities are untouched, and no branch of the registration
  raises (\<open>register\<close> is a total function with no error result).
\<close>

theorem register_twice_appends:
  "sid_user_map (register (register reg u s) u s) = sid_user_map (register reg u s) \<and>
   user_sid_map (register (register reg u s) u s) =
     (user_sid_map reg)
       (u \<mapsto> (case user_sid_map reg u of None \<Rightarrow> [] | Some sids \<Rightarrow> sids) @ [s, s])"
  by (simp add: register_def)

text \<open>
  C4 as stated fails: registering connection \<open>s1\<close> for identity \<open>7\<close> twice does not give
  the registry that one registration gives.
\<close>

theorem register_not_idempotent:
  "register (register empty_registry ''7'' ''s1'') ''7'' ''s1''
     \<noteq> register empty_registry ''7'' ''s1''"
proof
  assume "register (register empty_registry ''7'' ''s1'') ''7'' ''s1''
            = register empty_registry ''7'' ''s1''"
  then have "user_sid_map (register (register empty_registry ''7'' ''s1'') ''7'' ''s1'') ''7''
               = user_sid_map (register empty_registry ''7'' ''s1'') ''7''"
    by simp
  then show False by (simp add: register_def empty_registry_def)
qed

text \<open>
  C5 (as the code has it). Starting from the empty registry, after every sequence of
  connects and disconnects in which no connect arrives for a connection that is
  currently registered, the two maps are symmetric: a connection maps to an identity
  exactly when that identity's list contains the connection.
\<close>

theorem registry_symmetric_fresh:
  "fresh_connects verify empty_registry ops \<Longrightarrow>
   symmetric (reg_run verify empty_registry ops)"
  using reg_run_inv [of empty_registry verify ops] symmetric_empty distinct_sids_empty
  by simp

theorem registry_symmetric_fresh_witness:
  "fresh_connects example_verify empty_registry
     [Connect ''s1'' (Some ''tokA''), Connect ''s2'' (Some ''tokA''), Disconnect ''s1'',
      Connect ''s3'' None] \<and>
   symmetric (reg_run example_verify empty_registry
     [Connect ''s1'' (Some ''tokA''), Connect ''s2'' (Some ''tokA''), Disconnect ''s1'',
      Connect ''s3'' None])"
proof -
  have h: "fresh_connects example_verify empty_registry
     [Connect ''s1'' (Some ''tokA''), Connect ''s2'' (Some ''tokA''), Disconnect ''s1'',
      Connect ''s3'' None]"
    by (simp add: example_connect handle_connect_None register_def empty_registry_def
        handle_disconnect_def)
  from registry_symmetric_fresh [OF h] h show ?thesis by blast
qed

text \<open>
  C5 as stated fails: when the connect of connection \<open>s1\<close> is handled twice and \<open>s1\<close>
  then disconnects, identity \<open>7\<close> still lists \<open>s1\<close> while \<open>s1\<close> has no reverse entry.
\<close>

theorem registry_asymmetric_after_double_connect:
  "\<not> symmetric (reg_run example_verify empty_registry
       [Connect ''s1'' (Some ''tokA''), Connect ''s1'' (Some ''tokA''), Disconnect ''s1''])"
proof
  let ?r = "reg_run example_verify empty_registry
       [Connect ''s1'' (Some ''tokA''), Connect ''s1'' (Some ''tokA''), Disconnect ''s1'']"
  assume sym: "symmetric ?r"
  have a: "user_sid_map ?r ''7'' = Some [''s1'']"
    by (simp add: example_connect register_def empty_registry_def handle_disconnect_def)
  have b: "sid_user_map ?r ''s1'' = None"
    by (simp add: example_connect register_def empty_registry_def handle_disconnect_def)
  from sym a have "sid_user_map ?r ''s1'' = Some ''7''"
    unfolding symmetric_def by simp
  with b show False by simp
qed

section \<open>History cache: properties\<close>

lemma add_to_group_keys: "fst ` set (add_to_group u m g) = insert u (fst ` set g)"
proof (induction g)
  case Nil
  then show ?case by simp
next
  case (Cons a g)
  obtain k ms where a: "a = (k, ms)" by (cases a)
  show ?case
  proof (cases "k = u")
    case True
    with a show ?thesis by simp
  next
    case False
    with a Cons.IH show ?thesis by (simp add: insert_commute)
  qed
qed

lemma add_to_group_distinct:
  "distinct (map fst g) \<Longrightarrow> distinct (map fst (add_to_group u m g))"
proof (induction g)
  case Nil
  then show ?case by simp
next
  case (Cons a g)
  obtain k ms where a: "a = (k, ms)" by (cases a)
  show ?case
  proof (cases "k = u")
    case True
    with Cons.prems a show ?thesis by simp
  next
    case False
    have "k \<notin> fst ` set (add_to_group u m g)"
      using Cons.prems a False by (simp add: add_to_group_keys)
    with Cons a False show ?thesis by simp
  qed
qed

lemma add_to_group_sender:
  "\<forall>(k, ms) \<in> set g. \<forall>x \<in> set ms. sender x = k \<Longrightarrow> sender m = u \<Longrightarrow>
   \<forall>(k, ms) \<in> set (add_to_group u m g). \<forall>x \<in> set ms. sender x = k"
proof (induction g)
  case Nil
  then show ?case by simp
next
  case (Cons a g)
  obtain k ms where a: "a = (k, ms)" by (cases a)
  have hd: "\<forall>x \<in> set ms. sender x = k" and tl: "\<forall>(k, ms) \<in> set g. \<forall>x \<in> set ms. sender x = k"
    using Cons.prems(1) a by simp_all
  show ?case
  proof (cases "k = u")
    case True
    with a hd tl Cons.prems(2) show ?thesis by simp
  next
    case False
    with a hd Cons.IH [OF tl Cons.prems(2)] show ?thesis by simp
  qed
qed

lemma foldl_group_inv:
  "distinct (map fst g) \<Longrightarrow> \<forall>(k, ms) \<in> set g. \<forall>x \<in> set ms. sender x = k \<Longrightarrow>
   distinct (map fst (foldl (\<lambda>g m. add_to_group (sender m) m g) g msgs)) \<and>
   (\<forall>(k, ms) \<in> set (foldl (\<lambda>g m. add_to_group (sender m) m g) g msgs). \<forall>x \<in> set ms. sender x = k)"
proof (induction msgs arbitrary: g)
  case Nil
  then show ?case by simp
next
  case (Cons m msgs)
  have d: "distinct (map fst (add_to_group (sender m) m g))"
    using Cons.prems(1) by (rule add_to_group_distinct)
  have s: "\<forall>(k, ms) \<in> set (add_to_group (sender m) m g). \<forall>x \<in> set ms. sender x = k"
    using Cons.prems(2) by (rule add_to_group_sender) simp
  from Cons.IH [OF d s] show ?case by simp
qed

lemma group_by_user_inv:
  "distinct (map fst (group_by_user msgs)) \<and>
   (\<forall>(k, ms) \<in> set (group_by_user msgs). \<forall>x \<in> set ms. sender x = k)"
  unfolding group_by_user_def by (rule foldl_group_inv) simp_all

lemma filter_concat_absent:
  "\<forall>kv \<in> set g. \<forall>x \<in> set (f kv). sender x = fst kv \<Longrightarrow> u \<notin> fst ` set g \<Longrightarrow>
   filter (\<lambda>m. sender m = u) (concat (map f g)) = []"
  by (induction g) (auto simp: filter_empty_conv)

lemma filter_concat_bound:
  "distinct (map fst g) \<Longrightarrow> \<forall>kv \<in> set g. \<forall>x \<in> set (f kv). sender x = fst kv \<Longrightarrow>
   \<forall>kv \<in> set g. length (f kv) \<le> P \<Longrightarrow>
   length (filter (\<lambda>m. sender m = u) (concat (map f g))) \<le> P"
proof (induction g)
  case Nil
  then show ?case by simp
next
  case (Cons a g)
  show ?case
  proof (cases "fst a = u")
    case True
    then have "u \<notin> fst ` set g" using Cons.prems(1) by auto
    then have rest: "filter (\<lambda>m. sender m = u) (concat (map f g)) = []"
      using Cons.prems(2) by (intro filter_concat_absent) simp_all
    have "length (filter (\<lambda>m. sender m = u) (f a)) \<le> length (f a)" by simp
    also have "\<dots> \<le> P" using Cons.prems(3) by simp
    finally show ?thesis using rest by simp
  next
    case False
    then have "filter (\<lambda>m. sender m = u) (f a) = []"
      using Cons.prems(2) by (auto simp: filter_empty_conv)
    moreover have "length (filter (\<lambda>m. sender m = u) (concat (map f g))) \<le> P"
      using Cons.prems by (intro Cons.IH) simp_all
    ultimately show ?thesis by simp
  qed
qed

lemma length_slice_last: "0 < k \<Longrightarrow> length (slice_last k xs) \<le> nat k"
  by (simp add: slice_last_def)

lemma set_slice_last: "set (slice_last k xs) \<subseteq> set xs"
  by (simp add: slice_last_def set_drop_subset)

lemma length_filter_drop: "length (filter P (drop n xs)) \<le> length (filter P xs)"
proof -
  have "length (filter P xs) = length (filter P (take n xs @ drop n xs))" by simp
  also have "\<dots> = length (filter P (take n xs)) + length (filter P (drop n xs))"
    by (simp only: filter_append length_append)
  finally show ?thesis by simp
qed

lemma length_filter_slice_last:
  "length (filter P (slice_last k xs)) \<le> length (filter P xs)"
  by (simp add: slice_last_def length_filter_drop)

lemma limited_bound:
  assumes "0 < P"
  shows "length (filter (\<lambda>m. sender m = u)
           (concat (map (\<lambda>(user_id, messages). slice_last P (sort_key d_timestamp messages))
                        (group_by_user msgs)))) \<le> nat P"
proof (rule filter_concat_bound)
  show "distinct (map fst (group_by_user msgs))" using group_by_user_inv by blast
next
  show "\<forall>kv\<in>set (group_by_user msgs).
          \<forall>x\<in>set (case kv of (user_id, messages) \<Rightarrow> slice_last P (sort_key d_timestamp messages)).
            sender x = fst kv"
  proof (intro ballI)
    fix kv x
    assume kv: "kv \<in> set (group_by_user msgs)"
      and x: "x \<in> set (case kv of (user_id, messages) \<Rightarrow> slice_last P (sort_key d_timestamp messages))"
    obtain k ms where e: "kv = (k, ms)" by (cases kv)
    from x e have "x \<in> set (sort_key d_timestamp ms)" using set_slice_last by fastforce
    then have "x \<in> set ms" by simp
    with kv e group_by_user_inv [of msgs] show "sender x = fst kv" by auto
  qed
next
  show "\<forall>kv\<in>set (group_by_user msgs).
          length (case kv of (user_id, messages) \<Rightarrow> slice_last P (sort_key d_timestamp messages)) \<le> nat P"
    using assms by (auto simp: length_slice_last)
qed

text \<open>
  C1. For positive limits G and P, the diversity-limited history holds at most G messages
  and at most P messages of any one sender (the sender being the \<open>user_id\<close> of the
  message, \<open>'system'\<close> when it has none), whatever the cache holds.
\<close>

theorem history_with_user_limit_bounds:
  assumes "0 < G" and "0 < P"
  shows "int (length (get_chat_history_with_user_limit r room G P)) \<le> G \<and>
         (\<forall>u. int (length (filter (\<lambda>m. sender m = u)
                 (get_chat_history_with_user_limit r room G P))) \<le> P)"
proof (cases "redis_up r")
  case False
  with assms show ?thesis by (simp add: get_chat_history_with_user_limit_def)
next
  case True
  define lim where "lim = concat (map (\<lambda>(user_id, messages). slice_last P (sort_key d_timestamp messages))
        (group_by_user (map snd (zrange (zsets r (history_key room)) (- 1000) (- 1)))))"
  define srt where "srt = sort_key d_timestamp lim"
  have res: "get_chat_history_with_user_limit r room G P =
               (if int (length srt) > G then slice_last G srt else srt)"
    using True by (simp add: get_chat_history_with_user_limit_def Let_def lim_def srt_def)
  have per: "length (filter (\<lambda>m. sender m = u) srt) \<le> nat P" for u
  proof -
    have "length (filter (\<lambda>m. sender m = u) srt) = length (filter (\<lambda>m. sender m = u) lim)"
      by (simp add: srt_def filter_sort)
    also have "\<dots> \<le> nat P" unfolding lim_def using assms(2) by (rule limited_bound)
    finally show ?thesis .
  qed
  show ?thesis
  proof (cases "int (length srt) > G")
    case True
    have "length (slice_last G srt) \<le> nat G" using assms(1) by (rule length_slice_last)
    moreover have "length (filter (\<lambda>m. sender m = u) (slice_last G srt)) \<le> nat P" for u
      using length_filter_slice_last [of "\<lambda>m. sender m = u" G srt] per [of u] by linarith
    ultimately show ?thesis using True res assms by (simp add: le_nat_iff)
  next
    case False
    with res per assms show ?thesis by (simp add: le_nat_iff)
  qed
qed

theorem history_with_user_limit_bounds_witness:
  "(0::int) < 2 \<and> (0::int) < 1 \<and>
   int (length (get_chat_history_with_user_limit example_cache ''42'' 2 1)) \<le> 2 \<and>
   (\<forall>u. int (length (filter (\<lambda>m. sender m = u)
           (get_chat_history_with_user_limit example_cache ''42'' 2 1))) \<le> 1)"
  using history_with_user_limit_bounds [of 2 1 example_cache "''42''"] by simp

end
